theory Spec2Isabelle
  imports Complex_Main "HOL-Library.DAList" "HOL-Library.Sublist"
begin

section \<open>Python values used by \<open>embeddings.py\<close>\<close>

text \<open>
  The module \<open>mcp-server/src/embeddings.py\<close> holds a pure function \<open>cosine_similarity\<close>,
  an adapter \<open>get_text_embedding\<close> around an external embedding service, and the class
  \<open>WordEmbeddingStore\<close> with two dictionaries \<open>embeddings\<close> and \<open>words\<close>.

  Modelling decisions:
  \<^item> A Python \<open>float\<close> is idealised as a \<^typ>\<open>real\<close>: no rounding, no overflow to
    \<open>inf\<close>, no underflow to \<open>0.0\<close>, no \<open>nan\<close>. The code and the model agree on
    control flow (which branch returns, what is raised, which components enter a sum,
    how many entries are returned), and on values wherever every operation of the
    binary64 computation is exact. They differ where binary64 rounds, overflows or
    underflows: there the code can return \<open>nan\<close>, or \<open>0.0\<close> for a vector that is not
    zero, and \<open>list.sort\<close> cannot order a \<open>nan\<close>. The exact value of a similarity and
    the order among similarities are therefore properties of the model only, and are
    collected at the end under that heading.
  \<^item> A Python \<open>dict\<close> keeps its keys unique and in insertion order, and assigning to a
    key that is present keeps the key's position. This is the type
    \<^typ>\<open>('k, 'v) alist\<close> with \<^const>\<open>DAList.update\<close>.
  \<^item> An exception is a value of \<open>pyexn\<close>; a call that may raise returns
    \<open>pyexn + 'a\<close> with \<open>Inl\<close> for the exception.
  \<^item> The embedding service is a parameter: a function that answers a text, given the
    texts it was asked before (so that it may fail on one call and succeed on the next).
    The texts it was asked are recorded in the field \<open>provider_calls\<close>.
  \<^item> The \<open>print\<close> calls of the exception handlers write to standard output only and
    are left out.
\<close>

datatype pyexn = ProviderError string | KeyError string | ZeroDivisionError | ValueError

type_synonym vector = "real list"

type_synonym provider = "string list \<Rightarrow> string \<Rightarrow> pyexn + vector"

definition items :: "('k, 'v) alist \<Rightarrow> ('k \<times> 'v) list" where
  "items d = DAList.impl_of d"

definition keys :: "('k, 'v) alist \<Rightarrow> 'k list" where
  "keys d = map fst (DAList.impl_of d)"

text \<open>\<open>xs[:stop]\<close>: a negative \<open>stop\<close> counts from the end and is clamped at the start.\<close>

definition slice_to :: "'a list \<Rightarrow> int \<Rightarrow> 'a list" where
  "slice_to xs stop =
     (if stop < 0 then take (nat (int (length xs) + stop)) xs else take (nat stop) xs)"

text \<open>
  \<open>xs.sort(key=key, reverse=True)\<close>: the list is reversed, sorted by a stable ascending
  sort, and reversed again, which keeps elements with equal keys in their original order.
\<close>

definition list_sort_reverse :: "('a \<Rightarrow> 'k::linorder) \<Rightarrow> 'a list \<Rightarrow> 'a list" where
  "list_sort_reverse key xs = rev (sort_key key (rev xs))"

definition math_sqrt :: "real \<Rightarrow> pyexn + real" where
  "math_sqrt x = (if x < 0 then Inl ValueError else Inr (sqrt x))"

definition truediv :: "real \<Rightarrow> real \<Rightarrow> pyexn + real" where
  "truediv x y = (if y = 0 then Inl ZeroDivisionError else Inr (x / y))"

section \<open>\<open>get_text_embedding\<close> and \<open>cosine_similarity\<close>\<close>

text \<open>
  \<open>get_text_embedding\<close> calls the service once and re-raises its failure. The second
  component is the updated record of calls.
\<close>

definition get_text_embedding ::
    "provider \<Rightarrow> string \<Rightarrow> string list \<Rightarrow> (pyexn + vector) \<times> string list" where
  "get_text_embedding p text calls = (p calls text, calls @ [text])"

definition cosine_similarity :: "vector \<Rightarrow> vector \<Rightarrow> pyexn + real" where
  "cosine_similarity vec1 vec2 =
     (let dot_product = sum_list (map (\<lambda>(a, b). a * b) (zip vec1 vec2)) in
      case math_sqrt (sum_list (map (\<lambda>a. a * a) vec1)) of
        Inl e \<Rightarrow> Inl e
      | Inr magnitude1 \<Rightarrow>
          (case math_sqrt (sum_list (map (\<lambda>b. b * b) vec2)) of
             Inl e \<Rightarrow> Inl e
           | Inr magnitude2 \<Rightarrow>
               if magnitude1 = 0 \<or> magnitude2 = 0 then Inr 0
               else truediv dot_product (magnitude1 * magnitude2)))"

section \<open>\<open>WordEmbeddingStore\<close>\<close>

record word_data =
  meaning :: string
  status :: string

record listed_word = word_data +
  word :: string

record scored_word = listed_word +
  similarity :: real

record store =
  embeddings :: "(string, vector) alist"
  words :: "(string, word_data) alist"

record world =
  word_store :: store
  provider_calls :: "string list"

text \<open>\<open>WordEmbeddingStore()\<close>: both dictionaries empty.\<close>

definition init :: store where
  "init = \<lparr>embeddings = DAList.empty, words = DAList.empty\<rparr>"

definition add_word ::
    "provider \<Rightarrow> string \<Rightarrow> string \<Rightarrow> string \<Rightarrow> world \<Rightarrow> (pyexn + unit) \<times> world" where
  "add_word p wd mn st w =
     (case get_text_embedding p wd (provider_calls w) of
        (Inl e, calls) \<Rightarrow> (Inr (), w\<lparr>provider_calls := calls\<rparr>)
      | (Inr embedding, calls) \<Rightarrow>
          (Inr (),
           \<lparr>word_store =
              \<lparr>embeddings = DAList.update wd embedding (embeddings (word_store w)),
               words = DAList.update wd \<lparr>meaning = mn, status = st\<rparr> (words (word_store w))\<rparr>,
            provider_calls = calls\<rparr>))"

text \<open>
  An element of \<open>words_list\<close> is a dictionary from field names to strings.
  \<open>word_data["english"]\<close> and \<open>word_data["japanese"]\<close> raise \<open>KeyError\<close> on a missing
  key, outside of any handler; \<open>word_data.get("status", "new")\<close> does not.
\<close>

fun add_words_batch ::
    "provider \<Rightarrow> (string \<rightharpoonup> string) list \<Rightarrow> world \<Rightarrow> (pyexn + unit) \<times> world" where
  "add_words_batch p [] w = (Inr (), w)"
| "add_words_batch p (wdata # rest) w =
     (case wdata ''english'' of
        None \<Rightarrow> (Inl (KeyError ''english''), w)
      | Some wd \<Rightarrow>
          (case wdata ''japanese'' of
             None \<Rightarrow> (Inl (KeyError ''japanese''), w)
           | Some mn \<Rightarrow>
               (case add_word p wd mn (case wdata ''status'' of None \<Rightarrow> ''new'' | Some s \<Rightarrow> s) w of
                  (Inl e, w') \<Rightarrow> (Inl e, w')
                | (Inr u, w') \<Rightarrow> add_words_batch p rest w')))"

text \<open>
  The loop of \<open>search_similar_words\<close> over \<open>self.embeddings.items()\<close>, appending to
  \<open>similarities\<close>. \<open>self.words[word]\<close> raises \<open>KeyError\<close> on a missing key.
\<close>

fun similarities_loop ::
    "(string, word_data) alist \<Rightarrow> vector \<Rightarrow> (string \<times> vector) list \<Rightarrow> scored_word list
      \<Rightarrow> pyexn + scored_word list" where
  "similarities_loop ws target [] acc = Inr acc"
| "similarities_loop ws target ((wd, embedding) # rest) acc =
     (case cosine_similarity target embedding of
        Inl e \<Rightarrow> Inl e
      | Inr sim \<Rightarrow>
          (case DAList.lookup ws wd of
             None \<Rightarrow> Inl (KeyError wd)
           | Some d \<Rightarrow>
               similarities_loop ws target rest
                 (acc @ [\<lparr>meaning = meaning d, status = status d, word = wd, similarity = sim\<rparr>])))"

definition search_similar_words ::
    "provider \<Rightarrow> string \<Rightarrow> int \<Rightarrow> world \<Rightarrow> (pyexn + scored_word list) \<times> world" where
  "search_similar_words p target_text limit w =
     (if items (embeddings (word_store w)) = [] then (Inr [], w)
      else
        (case get_text_embedding p target_text (provider_calls w) of
           (Inl e, calls) \<Rightarrow> (Inr [], w\<lparr>provider_calls := calls\<rparr>)
         | (Inr target_embedding, calls) \<Rightarrow>
             (case similarities_loop (words (word_store w)) target_embedding
                     (items (embeddings (word_store w))) [] of
                Inl e \<Rightarrow> (Inr [], w\<lparr>provider_calls := calls\<rparr>)
              | Inr similarities \<Rightarrow>
                  (Inr (slice_to (list_sort_reverse similarity similarities) limit),
                   w\<lparr>provider_calls := calls\<rparr>))))"

definition get_all_words :: "store \<Rightarrow> listed_word list" where
  "get_all_words s =
     map (\<lambda>(wd, d). \<lparr>meaning = meaning d, status = status d, word = wd\<rparr>) (items (words s))"

definition clear :: "world \<Rightarrow> (pyexn + unit) \<times> world" where
  "clear w = (Inr (), w\<lparr>word_store := \<lparr>embeddings = DAList.empty, words = DAList.empty\<rparr>\<rparr>)"

section \<open>The public interface and the store invariant\<close>

text \<open>
  The two dictionaries are meant to hold the same keys. \<open>keys_in_lockstep\<close> says so.
\<close>

definition keys_in_lockstep :: "store \<Rightarrow> bool" where
  "keys_in_lockstep s \<longleftrightarrow> set (keys (embeddings s)) = set (keys (words s))"

text \<open>
  A call of one public method of \<open>WordEmbeddingStore\<close>, with the optional arguments
  \<open>status\<close> (default \<open>"new"\<close>) and \<open>limit\<close> (default \<open>5\<close>), and what it returns.
  \<open>call\<close> runs one such call on the store of the world.
\<close>

datatype request =
    AddWord string string "string option"
  | AddWordsBatch "(string \<rightharpoonup> string) list"
  | SearchSimilarWords string "int option"
  | GetAllWords
  | Clear

datatype response =
    Nothing
  | Similar "scored_word list"
  | Listed "listed_word list"

fun call :: "provider \<Rightarrow> request \<Rightarrow> world \<Rightarrow> (pyexn + response) \<times> world" where
  "call p (AddWord wd mn st) w =
     (case add_word p wd mn (case st of None \<Rightarrow> ''new'' | Some s \<Rightarrow> s) w of
        (Inl e, w') \<Rightarrow> (Inl e, w')
      | (Inr u, w') \<Rightarrow> (Inr Nothing, w'))"
| "call p (AddWordsBatch words_list) w =
     (case add_words_batch p words_list w of
        (Inl e, w') \<Rightarrow> (Inl e, w')
      | (Inr u, w') \<Rightarrow> (Inr Nothing, w'))"
| "call p (SearchSimilarWords target_text limit) w =
     (case search_similar_words p target_text (case limit of None \<Rightarrow> 5 | Some l \<Rightarrow> l) w of
        (Inl e, w') \<Rightarrow> (Inl e, w')
      | (Inr rs, w') \<Rightarrow> (Inr (Similar rs), w'))"
| "call p GetAllWords w = (Inr (Listed (get_all_words (word_store w))), w)"
| "call p Clear w =
     (case clear w of
        (Inl e, w') \<Rightarrow> (Inl e, w')
      | (Inr u, w') \<Rightarrow> (Inr Nothing, w'))"

section \<open>Concrete scenarios\<close>

text \<open>
  An embedding service that knows four texts and fails on every other one, a world with
  a new store and no call made yet, and a batch of three entries whose second entry is
  unknown to the service.
\<close>

definition demo_provider :: provider where
  "demo_provider calls text =
     (if text = ''go'' then Inr [1, 0]
      else if text = ''run'' then Inr [0, 1]
      else if text = ''walk'' then Inr [2, 0]
      else if text = ''move'' then Inr [1, 0]
      else Inl (ProviderError text))"

definition fresh :: world where
  "fresh = \<lparr>word_store = init, provider_calls = []\<rparr>"

definition demo_batch :: "(string \<rightharpoonup> string) list" where
  "demo_batch =
     [ [''english'' \<mapsto> ''go'', ''japanese'' \<mapsto> ''iku'', ''status'' \<mapsto> ''mastered''],
       [''english'' \<mapsto> ''qzx'', ''japanese'' \<mapsto> ''nazo''],
       [''english'' \<mapsto> ''run'', ''japanese'' \<mapsto> ''hashiru''] ]"

definition loaded :: world where
  "loaded = snd (add_words_batch demo_provider demo_batch fresh)"

definition loaded3 :: world where
  "loaded3 = snd (add_word demo_provider ''walk'' ''aruku'' ''new'' loaded)"

section \<open>Library facts about dictionaries, slices and sorting\<close>

lemma items_update: "items (DAList.update k v d) = AList.update k v (items d)"
  by (simp add: items_def update.rep_eq)

lemma items_empty: "items DAList.empty = []"
  by (simp add: items_def empty.rep_eq)

lemma keys_items: "keys d = map fst (items d)"
  by (simp add: keys_def items_def)

lemma keys_update: "set (keys (DAList.update k v d)) = insert k (set (keys d))"
  by (simp add: keys_def update.rep_eq dom_update)

lemma keys_empty: "keys DAList.empty = []"
  by (simp add: keys_def empty.rep_eq)

lemma lookup_items: "DAList.lookup d k = map_of (items d) k"
  by (simp add: items_def lookup.rep_eq)

lemma lookup_None_iff: "DAList.lookup d k = None \<longleftrightarrow> k \<notin> set (keys d)"
  by (simp add: lookup.rep_eq keys_def map_of_eq_None_iff)

lemma length_slice_to_nonneg: "0 \<le> stop \<Longrightarrow> length (slice_to xs stop) \<le> nat stop"
  by (simp add: slice_to_def)

lemma slice_to_zero: "slice_to xs 0 = []"
  by (simp add: slice_to_def)

lemma slice_to_take: "\<exists>n. slice_to xs stop = take n xs"
  by (auto simp: slice_to_def)

lemma prefix_filter_take: "prefix (filter P (take n xs)) (filter P xs)"
proof -
  have "filter P xs = filter P (take n xs) @ filter P (drop n xs)"
    by (metis append_take_drop_id filter_append)
  then show ?thesis by (simp add: prefix_def)
qed

lemma sorted_list_sort_reverse: "sorted (rev (map key (list_sort_reverse key xs)))"
  by (simp add: list_sort_reverse_def rev_map [symmetric])

lemma filter_list_sort_reverse:
  "filter (\<lambda>x. key x = k) (list_sort_reverse key xs) = filter (\<lambda>x. key x = k) xs"
  by (simp add: list_sort_reverse_def rev_filter [symmetric] sort_key_stable)

section \<open>\<open>cosine_similarity\<close> over the reals\<close>

lemma sum_list_squares_nonneg: "0 \<le> sum_list (map (\<lambda>a. a * a) (v::real list))"
  by (induction v) auto

lemma math_sqrt_squares:
  "math_sqrt (sum_list (map (\<lambda>a. a * a) v)) = Inr (sqrt (sum_list (map (\<lambda>a. a * a) v)))"
  using sum_list_squares_nonneg [of v] by (simp add: math_sqrt_def)

lemma cosine_similarity_value:
  "cosine_similarity vec1 vec2 =
     Inr (if sqrt (sum_list (map (\<lambda>a. a * a) vec1)) = 0
             \<or> sqrt (sum_list (map (\<lambda>b. b * b) vec2)) = 0
          then 0
          else sum_list (map (\<lambda>(a, b). a * b) (zip vec1 vec2))
               / (sqrt (sum_list (map (\<lambda>a. a * a) vec1))
                  * sqrt (sum_list (map (\<lambda>b. b * b) vec2))))"
  by (simp add: cosine_similarity_def math_sqrt_squares truediv_def Let_def)

section \<open>The scenarios, evaluated\<close>

lemma loaded_items:
  "items (embeddings (word_store loaded)) = [(''go'', [1, 0]), (''run'', [0, 1])]"
  by (simp add: loaded_def demo_batch_def fresh_def init_def add_word_def
      get_text_embedding_def demo_provider_def items_update items_empty)

lemma loaded_words:
  "items (words (word_store loaded)) =
     [(''go'', \<lparr>meaning = ''iku'', status = ''mastered''\<rparr>),
      (''run'', \<lparr>meaning = ''hashiru'', status = ''new''\<rparr>)]"
  by (simp add: loaded_def demo_batch_def fresh_def init_def add_word_def
      get_text_embedding_def demo_provider_def items_update items_empty)

lemma loaded_calls: "provider_calls loaded = [''go'', ''qzx'', ''run'']"
  by (simp add: loaded_def demo_batch_def fresh_def init_def add_word_def
      get_text_embedding_def demo_provider_def)

lemma loaded3_items:
  "items (embeddings (word_store loaded3)) =
     [(''go'', [1, 0]), (''run'', [0, 1]), (''walk'', [2, 0])]"
  by (simp add: loaded3_def add_word_def get_text_embedding_def demo_provider_def
      items_update loaded_items)

lemma loaded3_words:
  "items (words (word_store loaded3)) =
     [(''go'', \<lparr>meaning = ''iku'', status = ''mastered''\<rparr>),
      (''run'', \<lparr>meaning = ''hashiru'', status = ''new''\<rparr>),
      (''walk'', \<lparr>meaning = ''aruku'', status = ''new''\<rparr>)]"
  by (simp add: loaded3_def add_word_def get_text_embedding_def demo_provider_def
      items_update loaded_words)

lemma loaded3_calls: "provider_calls loaded3 = [''go'', ''qzx'', ''run'', ''walk'']"
  by (simp add: loaded3_def add_word_def get_text_embedding_def loaded_calls
      demo_provider_def)

lemma cosine_go: "cosine_similarity [1, 0] [1, 0] = Inr 1"
  by (simp add: cosine_similarity_def math_sqrt_def truediv_def)

lemma cosine_run: "cosine_similarity [1, 0] [0, 1] = Inr 0"
  by (simp add: cosine_similarity_def math_sqrt_def truediv_def)

lemma cosine_walk: "cosine_similarity [1, 0] [2, 0] = Inr 1"
  by (simp add: cosine_similarity_def math_sqrt_def truediv_def)

lemma search_loaded3_all:
  "fst (search_similar_words demo_provider ''move'' 5 loaded3) =
     Inr [\<lparr>meaning = ''iku'', status = ''mastered'', word = ''go'', similarity = 1\<rparr>,
          \<lparr>meaning = ''aruku'', status = ''new'', word = ''walk'', similarity = 1\<rparr>,
          \<lparr>meaning = ''hashiru'', status = ''new'', word = ''run'', similarity = 0\<rparr>]"
  by (simp add: search_similar_words_def loaded3_items loaded3_words lookup_items
      get_text_embedding_def demo_provider_def cosine_go cosine_run cosine_walk
      list_sort_reverse_def slice_to_def)

section \<open>The search loop\<close>

lemma similarities_loop_total:
  "set (map fst es) \<subseteq> set (keys ws) \<Longrightarrow> \<exists>out. similarities_loop ws t es acc = Inr out"
proof (induction es arbitrary: acc)
  case Nil
  then show ?case by simp
next
  case (Cons x es)
  obtain wd e where x: "x = (wd, e)" by (cases x)
  from Cons.prems x have "DAList.lookup ws wd \<noteq> None"
    by (simp add: lookup_None_iff)
  then obtain d where d: "DAList.lookup ws wd = Some d" by blast
  from Cons.prems have "set (map fst es) \<subseteq> set (keys ws)" by simp
  from Cons.IH [OF this] show ?case
    by (simp add: x d cosine_similarity_value)
qed

lemma similarities_loop_result:
  "similarities_loop ws t es acc = Inr out \<Longrightarrow>
   \<exists>rs. out = acc @ rs \<and> length rs = length es \<and>
     (\<forall>k. map word (filter (\<lambda>r. similarity r = k) rs) =
          map fst (filter (\<lambda>(wd, e). cosine_similarity t e = Inr k) es))"
proof (induction es arbitrary: acc out)
  case Nil
  then show ?case by simp
next
  case (Cons x es)
  obtain wd e where x: "x = (wd, e)" by (cases x)
  obtain sim where sim: "cosine_similarity t e = Inr sim"
    using cosine_similarity_value by blast
  from Cons.prems x sim obtain d where d: "DAList.lookup ws wd = Some d"
    by (auto split: option.splits)
  let ?r = "\<lparr>meaning = meaning d, status = status d, word = wd, similarity = sim\<rparr>"
  from Cons.prems have "similarities_loop ws t es (acc @ [?r]) = Inr out"
    by (simp add: x sim d)
  from Cons.IH [OF this] obtain rs where rs: "out = (acc @ [?r]) @ rs" "length rs = length es"
    "\<forall>k. map word (filter (\<lambda>r. similarity r = k) rs) =
          map fst (filter (\<lambda>(wd, e). cosine_similarity t e = Inr k) es)"
    by blast
  have "out = acc @ (?r # rs)" using rs(1) by simp
  moreover have "length (?r # rs) = length (x # es)" using rs(2) by simp
  moreover have "\<forall>k. map word (filter (\<lambda>r. similarity r = k) (?r # rs)) =
          map fst (filter (\<lambda>(wd, e). cosine_similarity t e = Inr k) (x # es))"
    using rs(3) by (simp add: x sim)
  ultimately show ?case by blast
qed

lemma search_cases:
  "search_similar_words p q limit w =
     (if items (embeddings (word_store w)) = [] then (Inr [], w)
      else (case p (provider_calls w) q of
              Inl e \<Rightarrow> (Inr [], w\<lparr>provider_calls := provider_calls w @ [q]\<rparr>)
            | Inr t \<Rightarrow>
                (case similarities_loop (words (word_store w)) t (items (embeddings (word_store w))) [] of
                   Inl e \<Rightarrow> (Inr [], w\<lparr>provider_calls := provider_calls w @ [q]\<rparr>)
                 | Inr sims \<Rightarrow> (Inr (slice_to (list_sort_reverse similarity sims) limit),
                                w\<lparr>provider_calls := provider_calls w @ [q]\<rparr>))))"
  by (simp add: search_similar_words_def get_text_embedding_def split: sum.splits)

lemma search_store_unchanged: "word_store (snd (search_similar_words p q limit w)) = word_store w"
  by (simp add: search_cases split: sum.splits)

section \<open>Claims about \<open>search_similar_words\<close>\<close>

text \<open>
  C6. On a store without embeddings, \<open>search_similar_words\<close> returns the empty list
  for every query and every limit, and the world is unchanged: in particular the record
  of calls to the embedding service is the same, so the service was not called.
\<close>

theorem search_empty_store_no_call:
  "items (embeddings (word_store w)) = [] \<Longrightarrow>
   search_similar_words p q limit w = (Inr [], w)"
  by (simp add: search_similar_words_def)

theorem search_empty_store_no_call_witness:
  "items (embeddings (word_store fresh)) = [] \<and>
   search_similar_words demo_provider ''move'' 5 fresh = (Inr [], fresh) \<and>
   provider_calls (snd (search_similar_words demo_provider ''move'' 5 fresh)) = []"
proof -
  have h: "items (embeddings (word_store fresh)) = []"
    by (simp add: fresh_def init_def items_empty)
  show ?thesis
    using h search_empty_store_no_call [OF h, of demo_provider "''move''" 5]
    by (simp add: fresh_def)
qed

text \<open>
  C4. On a store that holds embeddings, when the embedding service fails on the query,
  \<open>search_similar_words\<close> returns the empty list as an ordinary result (\<open>Inr\<close>, not an
  exception); the store is unchanged and the failed call is the only effect.
\<close>

theorem search_fetch_failure_swallowed:
  "items (embeddings (word_store w)) \<noteq> [] \<Longrightarrow> p (provider_calls w) q = Inl e \<Longrightarrow>
   search_similar_words p q limit w = (Inr [], w\<lparr>provider_calls := provider_calls w @ [q]\<rparr>)"
  by (simp add: search_cases)

theorem search_fetch_failure_swallowed_witness:
  "items (embeddings (word_store loaded)) \<noteq> [] \<and>
   demo_provider (provider_calls loaded) ''qzx'' = Inl (ProviderError ''qzx'') \<and>
   fst (search_similar_words demo_provider ''qzx'' 5 loaded) = Inr []"
proof -
  have h1: "items (embeddings (word_store loaded)) \<noteq> []"
    by (simp add: loaded_items)
  have h2: "demo_provider (provider_calls loaded) ''qzx'' = Inl (ProviderError ''qzx'')"
    by (simp add: demo_provider_def)
  show ?thesis
    using h1 h2
      search_fetch_failure_swallowed [where p = demo_provider and w = loaded
        and q = "''qzx''" and e = "ProviderError ''qzx''" and limit = 5]
    by simp
qed

text \<open>
  For a limit that is not negative the result has at most \<open>limit\<close> entries, and none for
  \<open>limit = 0\<close>, whether or not the fetch succeeds.
\<close>

lemma search_limit_nonneg:
  "\<exists>rs. fst (search_similar_words p q limit w) = Inr rs \<and>
     (0 \<le> limit \<longrightarrow> length rs \<le> nat limit) \<and>
     (limit = 0 \<longrightarrow> rs = [])"
  by (simp add: search_cases length_slice_to_nonneg slice_to_zero split: sum.splits)

text \<open>
  C1. The claim fails on the code for a negative limit. \<open>search_similar_words\<close> never
  inspects \<open>limit\<close>, and the slice \<open>similarities[:limit]\<close> with a negative stop counts from
  the end. On the store holding \<open>go\<close>, \<open>run\<close> and \<open>walk\<close>, with the fetch for the query
  succeeding and \<open>limit = -1\<close>, the result is the ranking without its last entry: two
  entries, where the claim says none. Every arithmetic step of this run is exact in
  binary64, so the model and the code compute the same similarities here.
\<close>

theorem search_negative_limit_counterexample:
  "demo_provider (provider_calls loaded3) ''move'' = Inr [1, 0] \<and>
   (- 1 :: int) \<le> 0 \<and>
   fst (search_similar_words demo_provider ''move'' (- 1) loaded3) =
     Inr [\<lparr>meaning = ''iku'', status = ''mastered'', word = ''go'', similarity = 1\<rparr>,
          \<lparr>meaning = ''aruku'', status = ''new'', word = ''walk'', similarity = 1\<rparr>] \<and>
   fst (search_similar_words demo_provider ''move'' (- 1) loaded3) \<noteq> Inr []"
  by (simp add: search_similar_words_def loaded3_items loaded3_words lookup_items
      get_text_embedding_def demo_provider_def cosine_go cosine_run cosine_walk
      list_sort_reverse_def slice_to_def)

section \<open>\<open>add_word\<close>, \<open>add_words_batch\<close> and the invariant\<close>

lemma add_word_cases:
  "add_word p wd mn st w =
     (Inr (),
      case p (provider_calls w) wd of
        Inl e \<Rightarrow> w\<lparr>provider_calls := provider_calls w @ [wd]\<rparr>
      | Inr embedding \<Rightarrow>
          \<lparr>word_store =
             \<lparr>embeddings = DAList.update wd embedding (embeddings (word_store w)),
              words = DAList.update wd \<lparr>meaning = mn, status = st\<rparr> (words (word_store w))\<rparr>,
           provider_calls = provider_calls w @ [wd]\<rparr>)"
  by (simp add: add_word_def get_text_embedding_def split: sum.splits)

lemma add_word_returns: "fst (add_word p wd mn st w) = Inr ()"
  by (simp add: add_word_cases)

lemma add_word_calls:
  "provider_calls (snd (add_word p wd mn st w)) = provider_calls w @ [wd]"
  by (simp add: add_word_cases split: sum.splits)

lemma add_word_failure:
  "p (provider_calls w) wd = Inl e \<Longrightarrow> word_store (snd (add_word p wd mn st w)) = word_store w"
  by (simp add: add_word_cases)

lemma add_word_keys:
  "set (keys (words (word_store (snd (add_word p wd mn st w))))) =
     (if isl (p (provider_calls w) wd) then set (keys (words (word_store w)))
      else insert wd (set (keys (words (word_store w)))))"
  "set (keys (embeddings (word_store (snd (add_word p wd mn st w))))) =
     (if isl (p (provider_calls w) wd) then set (keys (embeddings (word_store w)))
      else insert wd (set (keys (embeddings (word_store w)))))"
  by (simp_all add: add_word_cases keys_update split: sum.splits)

lemma add_word_lockstep:
  "keys_in_lockstep (word_store w) \<Longrightarrow>
   keys_in_lockstep (word_store (snd (add_word p wd mn st w)))"
  by (simp add: keys_in_lockstep_def add_word_keys)

lemma add_words_batch_lockstep:
  "keys_in_lockstep (word_store w) \<Longrightarrow>
   keys_in_lockstep (word_store (snd (add_words_batch p es w)))"
proof (induction es arbitrary: w)
  case Nil
  then show ?case by simp
next
  case (Cons x es)
  show ?case
  proof (cases "x ''english''")
    case None
    with Cons.prems show ?thesis by simp
  next
    case (Some wd)
    show ?thesis
    proof (cases "x ''japanese''")
      case None
      with Some Cons.prems show ?thesis by simp
    next
      case (Some mn)
      let ?st = "case x ''status'' of None \<Rightarrow> ''new'' | Some s \<Rightarrow> s"
      have "keys_in_lockstep (word_store (snd (add_word p wd mn ?st w)))"
        using Cons.prems by (rule add_word_lockstep)
      from Cons.IH [OF this] show ?thesis
        using \<open>x ''english'' = Some wd\<close> Some
        by (simp add: add_word_cases)
    qed
  qed
qed

lemma init_lockstep: "keys_in_lockstep init"
  by (simp add: keys_in_lockstep_def init_def keys_empty)

lemma call_world:
  "snd (call p (AddWord wd mn st) w) =
     snd (add_word p wd mn (case st of None \<Rightarrow> ''new'' | Some s \<Rightarrow> s) w)"
  "snd (call p (AddWordsBatch es) w) = snd (add_words_batch p es w)"
  "snd (call p (SearchSimilarWords q limit) w) =
     snd (search_similar_words p q (case limit of None \<Rightarrow> 5 | Some l \<Rightarrow> l) w)"
  "snd (call p GetAllWords w) = w"
  "snd (call p Clear w) = snd (clear w)"
  by (auto split: prod.splits sum.splits)

lemma call_lockstep:
  assumes "keys_in_lockstep (word_store w)"
  shows "keys_in_lockstep (word_store (snd (call p r w)))"
proof (cases r)
  case (AddWord wd mn st)
  with add_word_lockstep [OF assms] show ?thesis
    by (simp only: call_world)
next
  case (AddWordsBatch es)
  with add_words_batch_lockstep [OF assms] show ?thesis
    by (simp only: call_world)
next
  case (SearchSimilarWords q limit)
  with assms show ?thesis
    by (simp only: call_world search_store_unchanged)
next
  case GetAllWords
  with assms show ?thesis
    by (simp only: call_world)
next
  case Clear
  then show ?thesis
    by (simp add: clear_def keys_in_lockstep_def keys_empty)
qed

text \<open>
  C2. A new store holds the same keys in both dictionaries, and every call of a public
  method (\<open>add_word\<close>, \<open>add_words_batch\<close>, \<open>search_similar_words\<close>, \<open>get_all_words\<close>,
  \<open>clear\<close>) on a store with that property leaves a store with that property. When the
  embedding fetch of \<open>add_word\<close> fails, the store after the call is the store before it:
  neither dictionary records anything.
\<close>

theorem public_methods_keep_lockstep:
  "keys_in_lockstep init \<and>
   (keys_in_lockstep (word_store w) \<longrightarrow> keys_in_lockstep (word_store (snd (call p r w)))) \<and>
   (p (provider_calls w) wd = Inl e \<longrightarrow>
      word_store (snd (add_word p wd mn st w)) = word_store w)"
  using init_lockstep call_lockstep [of w p r] add_word_failure [of p w wd e mn st]
  by blast

theorem public_methods_keep_lockstep_witness:
  "keys_in_lockstep (word_store loaded) \<and>
   keys_in_lockstep (word_store (snd (call demo_provider (AddWord ''walk'' ''aruku'' None) loaded))) \<and>
   keys (embeddings (word_store (snd (call demo_provider (AddWord ''walk'' ''aruku'' None) loaded)))) =
     [''go'', ''run'', ''walk''] \<and>
   demo_provider (provider_calls loaded) ''qzx'' = Inl (ProviderError ''qzx'') \<and>
   word_store (snd (add_word demo_provider ''qzx'' ''nazo'' ''new'' loaded)) = word_store loaded"
proof -
  have h1: "keys_in_lockstep (word_store loaded)"
    by (simp add: keys_in_lockstep_def keys_items loaded_items loaded_words)
  have h2: "demo_provider (provider_calls loaded) ''qzx'' = Inl (ProviderError ''qzx'')"
    by (simp add: demo_provider_def)
  have h3: "keys (embeddings (word_store (snd (call demo_provider (AddWord ''walk'' ''aruku'' None) loaded)))) =
     [''go'', ''run'', ''walk'']"
    by (simp add: add_word_cases demo_provider_def keys_items items_update loaded_items)
  show ?thesis
    using h1 h2 h3
      public_methods_keep_lockstep [where w = loaded and p = demo_provider
        and r = "AddWord ''walk'' ''aruku'' None" and wd = "''qzx''"
        and e = "ProviderError ''qzx''" and mn = "''nazo''" and st = "''new''"]
    by simp
qed

section \<open>Batches\<close>

lemma add_words_batch_foldl:
  "\<forall>e\<in>set es. e ''english'' \<noteq> None \<and> e ''japanese'' \<noteq> None \<Longrightarrow>
   add_words_batch p es w =
     (Inr (),
      foldl (\<lambda>w e. snd (add_word p (the (e ''english'')) (the (e ''japanese''))
                        (case e ''status'' of None \<Rightarrow> ''new'' | Some s \<Rightarrow> s) w)) w es)"
proof (induction es arbitrary: w)
  case Nil
  then show ?case by simp
next
  case (Cons x es)
  from Cons.prems obtain wd mn where x: "x ''english'' = Some wd" "x ''japanese'' = Some mn"
    by auto
  from Cons.prems have "\<forall>e\<in>set es. e ''english'' \<noteq> None \<and> e ''japanese'' \<noteq> None"
    by simp
  then have IH: "add_words_batch p es w' =
     (Inr (),
      foldl (\<lambda>w e. snd (add_word p (the (e ''english'')) (the (e ''japanese''))
                        (case e ''status'' of None \<Rightarrow> ''new'' | Some s \<Rightarrow> s) w)) w' es)" for w'
    by (rule Cons.IH)
  obtain w' where aw:
    "add_word p wd mn (case x ''status'' of None \<Rightarrow> ''new'' | Some s \<Rightarrow> s) w = (Inr (), w')"
    by (metis add_word_returns prod.collapse)
  show ?case
    by (simp add: x aw IH)
qed

lemma foldl_add_word_calls:
  "provider_calls
     (foldl (\<lambda>w e. snd (add_word p (the (e ''english'')) (the (e ''japanese''))
                        (case e ''status'' of None \<Rightarrow> ''new'' | Some s \<Rightarrow> s) w)) w es) =
   provider_calls w @ map (\<lambda>e. the (e ''english'')) es"
  by (induction es arbitrary: w) (simp_all add: add_word_calls)

lemma successful_indices_snoc:
  fixes ok :: "'a list \<Rightarrow> 'a \<Rightarrow> bool" and f :: "'a \<Rightarrow> 'b"
  shows "{f ((xs @ [x]) ! i) | i. i < length (xs @ [x]) \<and> ok (take i (xs @ [x])) ((xs @ [x]) ! i)} =
     {f (xs ! i) | i. i < length xs \<and> ok (take i xs) (xs ! i)} \<union> (if ok xs x then {f x} else {})"
  (is "?L = ?R")
proof (intro set_eqI iffI)
  fix y assume "y \<in> ?L"
  then obtain i where i: "y = f ((xs @ [x]) ! i)" "i < length (xs @ [x])"
    "ok (take i (xs @ [x])) ((xs @ [x]) ! i)" by blast
  show "y \<in> ?R"
  proof (cases "i < length xs")
    case True
    with i have "y = f (xs ! i)" "ok (take i xs) (xs ! i)" by (simp_all add: nth_append)
    with True show ?thesis by blast
  next
    case False
    with i(2) have "i = length xs" by simp
    with i show ?thesis by simp
  qed
next
  fix y assume "y \<in> ?R"
  then consider i where "y = f (xs ! i)" "i < length xs" "ok (take i xs) (xs ! i)"
    | "ok xs x" "y = f x"
    by (auto split: if_splits)
  then show "y \<in> ?L"
  proof cases
    case 1
    then have "y = f ((xs @ [x]) ! i)" "i < length (xs @ [x])"
      "ok (take i (xs @ [x])) ((xs @ [x]) ! i)" by (simp_all add: nth_append)
    then show ?thesis by blast
  next
    case 2
    then have "y = f ((xs @ [x]) ! length xs)" "length xs < length (xs @ [x])"
      "ok (take (length xs) (xs @ [x])) ((xs @ [x]) ! length xs)" by simp_all
    then show ?thesis by blast
  qed
qed

lemma foldl_add_word_keys:
  "set (keys (words (word_store
     (foldl (\<lambda>w e. snd (add_word p (the (e ''english'')) (the (e ''japanese''))
                        (case e ''status'' of None \<Rightarrow> ''new'' | Some s \<Rightarrow> s) w)) w es)))) =
   set (keys (words (word_store w))) \<union>
     {the ((es ! i) ''english'') | i. i < length es \<and>
        \<not> isl (p (provider_calls w @ map (\<lambda>e. the (e ''english'')) (take i es))
                 (the ((es ! i) ''english'')))}"
proof (induction es rule: rev_induct)
  case Nil
  then show ?case by simp
next
  case (snoc x xs)
  show ?case
    unfolding successful_indices_snoc
      [where ok = "\<lambda>ys y. \<not> isl (p (provider_calls w @ map (\<lambda>e. the (e ''english'')) ys)
                 (the (y ''english'')))" and f = "\<lambda>e. the (e ''english'')"]
    by (simp add: add_word_keys foldl_add_word_calls snoc.IH)
qed

lemma foldl_add_word_keys_embeddings:
  "set (keys (embeddings (word_store
     (foldl (\<lambda>w e. snd (add_word p (the (e ''english'')) (the (e ''japanese''))
                        (case e ''status'' of None \<Rightarrow> ''new'' | Some s \<Rightarrow> s) w)) w es)))) =
   set (keys (embeddings (word_store w))) \<union>
     {the ((es ! i) ''english'') | i. i < length es \<and>
        \<not> isl (p (provider_calls w @ map (\<lambda>e. the (e ''english'')) (take i es))
                 (the ((es ! i) ''english'')))}"
proof (induction es rule: rev_induct)
  case Nil
  then show ?case by simp
next
  case (snoc x xs)
  show ?case
    unfolding successful_indices_snoc
      [where ok = "\<lambda>ys y. \<not> isl (p (provider_calls w @ map (\<lambda>e. the (e ''english'')) ys)
                 (the (y ''english'')))" and f = "\<lambda>e. the (e ''english'')"]
    by (simp add: add_word_keys foldl_add_word_calls snoc.IH)
qed

text \<open>
  C5. For a batch whose entries all carry the fields \<open>english\<close> and \<open>japanese\<close>,
  \<open>add_words_batch\<close> returns normally (\<open>Inr ()\<close>) and its effect is that of \<open>add_word\<close>
  applied to the entries one after the other, in input order. Every entry's word is sent
  to the embedding service, in input order, whether or not an earlier fetch failed. In
  both dictionaries the keys afterwards are the keys before together with the words of
  exactly those entries whose fetch succeeded. So a batch of three entries, one of which
  fails, loaded into an empty store leaves exactly the two other words.
\<close>

theorem add_words_batch_isolates_failures:
  assumes "\<forall>e\<in>set es. e ''english'' \<noteq> None \<and> e ''japanese'' \<noteq> None"
  shows "add_words_batch p es w =
           (Inr (),
            foldl (\<lambda>w e. snd (add_word p (the (e ''english'')) (the (e ''japanese''))
                              (case e ''status'' of None \<Rightarrow> ''new'' | Some s \<Rightarrow> s) w)) w es) \<and>
         provider_calls (snd (add_words_batch p es w)) =
           provider_calls w @ map (\<lambda>e. the (e ''english'')) es \<and>
         set (keys (words (word_store (snd (add_words_batch p es w))))) =
           set (keys (words (word_store w))) \<union>
             {the ((es ! i) ''english'') | i. i < length es \<and>
                \<not> isl (p (provider_calls w @ map (\<lambda>e. the (e ''english'')) (take i es))
                         (the ((es ! i) ''english'')))} \<and>
         set (keys (embeddings (word_store (snd (add_words_batch p es w))))) =
           set (keys (embeddings (word_store w))) \<union>
             {the ((es ! i) ''english'') | i. i < length es \<and>
                \<not> isl (p (provider_calls w @ map (\<lambda>e. the (e ''english'')) (take i es))
                         (the ((es ! i) ''english'')))}"
  unfolding add_words_batch_foldl [OF assms] snd_conv
  using foldl_add_word_calls [of p w es] foldl_add_word_keys [of p w es]
    foldl_add_word_keys_embeddings [of p w es]
  by blast

theorem add_words_batch_isolates_failures_witness:
  "list_all (\<lambda>e. e ''english'' \<noteq> None \<and> e ''japanese'' \<noteq> None) demo_batch \<and>
   length demo_batch = 3 \<and>
   map (\<lambda>e. the (e ''english'')) demo_batch = [''go'', ''qzx'', ''run''] \<and>
   demo_provider [] ''go'' = Inr [1, 0] \<and>
   demo_provider [''go''] ''qzx'' = Inl (ProviderError ''qzx'') \<and>
   demo_provider [''go'', ''qzx''] ''run'' = Inr [0, 1] \<and>
   fst (add_words_batch demo_provider demo_batch fresh) = Inr () \<and>
   provider_calls (snd (add_words_batch demo_provider demo_batch fresh)) =
     [''go'', ''qzx'', ''run''] \<and>
   keys (words (word_store (snd (add_words_batch demo_provider demo_batch fresh)))) =
     [''go'', ''run''] \<and>
   keys (embeddings (word_store (snd (add_words_batch demo_provider demo_batch fresh)))) =
     [''go'', ''run'']"
proof -
  have h: "\<forall>e\<in>set demo_batch. e ''english'' \<noteq> None \<and> e ''japanese'' \<noteq> None"
    by (simp add: demo_batch_def)
  have k: "keys (words (word_store loaded)) = [''go'', ''run'']"
    "keys (embeddings (word_store loaded)) = [''go'', ''run'']"
    by (simp_all add: keys_items loaded_items loaded_words)
  have m: "map (\<lambda>e. the (e ''english'')) demo_batch = [''go'', ''qzx'', ''run'']"
    "length demo_batch = 3"
    by (simp_all add: demo_batch_def)
  have d: "demo_provider [] ''go'' = Inr [1, 0]"
    "demo_provider [''go''] ''qzx'' = Inl (ProviderError ''qzx'')"
    "demo_provider [''go'', ''qzx''] ''run'' = Inr [0, 1]"
    by (simp_all add: demo_provider_def)
  note T = add_words_batch_isolates_failures [OF h, of demo_provider fresh]
  have r: "fst (add_words_batch demo_provider demo_batch fresh) = Inr ()"
    using T [THEN conjunct1] by simp
  have c: "provider_calls (snd (add_words_batch demo_provider demo_batch fresh)) =
      provider_calls fresh @ map (\<lambda>e. the (e ''english'')) demo_batch"
    by (rule T [THEN conjunct2, THEN conjunct1])
  have f: "provider_calls fresh = []"
    by (simp add: fresh_def)
  show ?thesis
    using h k m d r c f by (simp add: list_all_iff loaded_def [symmetric])
qed

section \<open>Overwriting a word\<close>

lemma filter_key_update_same:
  "distinct (map fst al) \<Longrightarrow> filter (\<lambda>kv. fst kv = k) (AList.update k v al) = [(k, v)]"
proof (induction al)
  case Nil
  then show ?case by simp
next
  case (Cons a al)
  show ?case
  proof (cases "fst a = k")
    case True
    with Cons.prems have "k \<notin> fst ` set al" by auto
    then have "filter (\<lambda>kv. fst kv = k) al = []"
      by (auto simp: filter_empty_conv)
    with True show ?thesis by simp
  next
    case False
    with Cons show ?thesis by simp
  qed
qed

lemma filter_key_update_other:
  "k' \<noteq> k \<Longrightarrow>
   filter (\<lambda>kv. fst kv = k') (AList.update k v al) = filter (\<lambda>kv. fst kv = k') al"
  by (induction al) auto

lemma get_all_words_filter:
  "filter (\<lambda>e. word e = k) (get_all_words s) =
     map (\<lambda>(wd, d). \<lparr>meaning = meaning d, status = status d, word = wd\<rparr>)
       (filter (\<lambda>kv. fst kv = k) (items (words s)))"
  by (simp add: get_all_words_def filter_map comp_def case_prod_unfold)

lemma distinct_items: "distinct (map fst (items d))"
  by (simp add: items_def)

lemma add_word_entries_same:
  "p (provider_calls w) wd = Inr v \<Longrightarrow>
   filter (\<lambda>e. word e = wd) (get_all_words (word_store (snd (add_word p wd mn st w)))) =
     [\<lparr>meaning = mn, status = st, word = wd\<rparr>]"
  by (simp add: add_word_cases get_all_words_filter items_update filter_key_update_same
      distinct_items)

lemma add_word_entries_other:
  "wd' \<noteq> wd \<Longrightarrow>
   filter (\<lambda>e. word e = wd') (get_all_words (word_store (snd (add_word p wd mn st w)))) =
   filter (\<lambda>e. word e = wd') (get_all_words (word_store w))"
  by (simp add: add_word_cases get_all_words_filter items_update filter_key_update_other
      split: sum.splits)

text \<open>
  C7. After \<open>add_word\<close> of a word with one meaning and status and then \<open>add_word\<close> of the
  same word with another meaning and status, both fetches succeeding, \<open>get_all_words\<close>
  holds exactly one entry for the word, and it carries the meaning and status of the
  second call. The entries of every other word, one that differs only in letter case
  included, are what they were before the two calls.
\<close>

theorem add_word_twice_last_write_wins:
  assumes "p (provider_calls w) wd = Inr v1" and "p (provider_calls w @ [wd]) wd = Inr v2"
  shows "filter (\<lambda>e. word e = wd)
           (get_all_words (word_store
              (snd (add_word p wd mn2 st2 (snd (add_word p wd mn1 st1 w)))))) =
           [\<lparr>meaning = mn2, status = st2, word = wd\<rparr>] \<and>
         (\<forall>wd'. wd' \<noteq> wd \<longrightarrow>
            filter (\<lambda>e. word e = wd')
              (get_all_words (word_store
                 (snd (add_word p wd mn2 st2 (snd (add_word p wd mn1 st1 w)))))) =
            filter (\<lambda>e. word e = wd') (get_all_words (word_store w)))"
proof -
  have "p (provider_calls (snd (add_word p wd mn1 st1 w))) wd = Inr v2"
    using assms(2) by (simp add: add_word_calls)
  then show ?thesis
    by (simp add: add_word_entries_same add_word_entries_other)
qed

theorem add_word_twice_last_write_wins_witness:
  "demo_provider (provider_calls loaded) ''go'' = Inr [1, 0] \<and>
   demo_provider (provider_calls loaded @ [''go'']) ''go'' = Inr [1, 0] \<and>
   filter (\<lambda>e. word e = ''go'')
     (get_all_words (word_store
        (snd (add_word demo_provider ''go'' ''susumu'' ''new''
           (snd (add_word demo_provider ''go'' ''dekakeru'' ''learning'' loaded)))))) =
     [\<lparr>meaning = ''susumu'', status = ''new'', word = ''go''\<rparr>] \<and>
   filter (\<lambda>e. word e = ''Go'')
     (get_all_words (word_store
        (snd (add_word demo_provider ''go'' ''susumu'' ''new''
           (snd (add_word demo_provider ''go'' ''dekakeru'' ''learning'' loaded)))))) = [] \<and>
   get_all_words (word_store
        (snd (add_word demo_provider ''go'' ''susumu'' ''new''
           (snd (add_word demo_provider ''go'' ''dekakeru'' ''learning'' loaded))))) =
     [\<lparr>meaning = ''susumu'', status = ''new'', word = ''go''\<rparr>,
      \<lparr>meaning = ''hashiru'', status = ''new'', word = ''run''\<rparr>]"
proof -
  have h1: "demo_provider (provider_calls loaded) ''go'' = Inr [1, 0]"
    and h2: "demo_provider (provider_calls loaded @ [''go'']) ''go'' = Inr [1, 0]"
    by (simp_all add: demo_provider_def)
  have g: "get_all_words (word_store
        (snd (add_word demo_provider ''go'' ''susumu'' ''new''
           (snd (add_word demo_provider ''go'' ''dekakeru'' ''learning'' loaded))))) =
     [\<lparr>meaning = ''susumu'', status = ''new'', word = ''go''\<rparr>,
      \<lparr>meaning = ''hashiru'', status = ''new'', word = ''run''\<rparr>]"
    by (simp add: add_word_cases demo_provider_def get_all_words_def items_update loaded_words)
  have l: "filter (\<lambda>e. word e = ''Go'') (get_all_words (word_store loaded)) = []"
    by (simp add: get_all_words_def loaded_words)
  from add_word_twice_last_write_wins [where p = demo_provider and w = loaded
      and wd = "''go''" and ?v1.0 = "[1, 0]" and ?v2.0 = "[1, 0]" and ?mn1.0 = "''dekakeru''"
      and ?st1.0 = "''learning''" and ?mn2.0 = "''susumu''" and ?st2.0 = "''new''", OF h1 h2]
  have a: "filter (\<lambda>e. word e = ''go'')
     (get_all_words (word_store
        (snd (add_word demo_provider ''go'' ''susumu'' ''new''
           (snd (add_word demo_provider ''go'' ''dekakeru'' ''learning'' loaded)))))) =
     [\<lparr>meaning = ''susumu'', status = ''new'', word = ''go''\<rparr>]"
    and b: "filter (\<lambda>e. word e = ''Go'')
     (get_all_words (word_store
        (snd (add_word demo_provider ''go'' ''susumu'' ''new''
           (snd (add_word demo_provider ''go'' ''dekakeru'' ''learning'' loaded)))))) =
      filter (\<lambda>e. word e = ''Go'') (get_all_words (word_store loaded))"
    by simp_all
  show ?thesis
    using h1 h2 a b l g by simp
qed

section \<open>Claims about \<open>cosine_similarity\<close>\<close>

lemma sum_list_squares_zero:
  "(\<forall>a\<in>set v. a = 0) \<Longrightarrow> sum_list (map (\<lambda>a. a * a) (v::real list)) = 0"
  by (induction v) auto

lemma sum_list_map_nth:
  "sum_list (map f xs) = (\<Sum>i<length xs. f (xs ! i))"
proof -
  have "sum_list (map f xs) = (\<Sum>i = 0..<length (map f xs). map f xs ! i)"
    by (rule sum_list_sum_nth)
  also have "\<dots> = (\<Sum>i = 0..<length xs. f (xs ! i))"
    by (rule sum.cong) simp_all
  finally show ?thesis
    by (simp add: atLeast0LessThan)
qed

lemma dot_product_common_prefix:
  "sum_list (map (\<lambda>(a, b). a * b) (zip vec1 vec2)) =
     (\<Sum>i<min (length vec1) (length vec2). vec1 ! i * vec2 ! i)"
proof -
  have "sum_list (map (\<lambda>(a, b). a * b) (zip vec1 vec2)) =
      (\<Sum>i<length (zip vec1 vec2). (\<lambda>(a, b). a * b) (zip vec1 vec2 ! i))"
    by (rule sum_list_map_nth)
  also have "\<dots> = (\<Sum>i<min (length vec1) (length vec2). vec1 ! i * vec2 ! i)"
    by (rule sum.cong) simp_all
  finally show ?thesis .
qed

text \<open>
  C8. \<open>cosine_similarity\<close> returns a number for every pair of vectors (so for every pair
  of equal length): it raises nothing, and no \<open>ZeroDivisionError\<close> in particular. When
  the magnitude computed for either vector is zero, which is the case when all
  components of that vector are zero, the number returned is zero.
\<close>

theorem cosine_similarity_zero_magnitude:
  "(\<exists>r. cosine_similarity vec1 vec2 = Inr r) \<and>
   cosine_similarity vec1 vec2 \<noteq> Inl ZeroDivisionError \<and>
   (sqrt (sum_list (map (\<lambda>a. a * a) vec1)) = 0 \<or> sqrt (sum_list (map (\<lambda>b. b * b) vec2)) = 0
      \<longrightarrow> cosine_similarity vec1 vec2 = Inr 0) \<and>
   ((\<forall>a\<in>set vec1. a = 0) \<or> (\<forall>b\<in>set vec2. b = 0)
      \<longrightarrow> cosine_similarity vec1 vec2 = Inr 0)"
proof -
  have "(\<forall>a\<in>set vec1. a = 0) \<or> (\<forall>b\<in>set vec2. b = 0) \<Longrightarrow>
      sqrt (sum_list (map (\<lambda>a. a * a) vec1)) = 0 \<or> sqrt (sum_list (map (\<lambda>b. b * b) vec2)) = 0"
    using sum_list_squares_zero [of vec1] sum_list_squares_zero [of vec2] by auto
  then show ?thesis
    by (auto simp: cosine_similarity_value)
qed

theorem cosine_similarity_zero_magnitude_witness:
  "length [0, 0 :: real] = length [3, 4 :: real] \<and>
   sqrt (sum_list (map (\<lambda>a. a * a) [0, 0])) = 0 \<and>
   cosine_similarity [0, 0] [3, 4] = Inr 0 \<and>
   cosine_similarity [3, 4] [0, 0] = Inr 0 \<and>
   cosine_similarity [0, 0] [0, 0] = Inr 0"
  using cosine_similarity_zero_magnitude [of "[0, 0]" "[3, 4]"]
    cosine_similarity_zero_magnitude [of "[3, 4]" "[0, 0]"]
    cosine_similarity_zero_magnitude [of "[0, 0]" "[0, 0]"]
  by simp

text \<open>
  C10. For every pair of vectors, of equal length or not, \<open>cosine_similarity\<close> returns a
  number and raises nothing. The numerator is the sum of the products over the common
  indices only, those below the length of the shorter vector; each magnitude is taken
  over all components of its vector.
\<close>

theorem cosine_similarity_unequal_lengths:
  "cosine_similarity vec1 vec2 =
     Inr (if sqrt (\<Sum>i<length vec1. vec1 ! i * vec1 ! i) = 0
             \<or> sqrt (\<Sum>i<length vec2. vec2 ! i * vec2 ! i) = 0
          then 0
          else (\<Sum>i<min (length vec1) (length vec2). vec1 ! i * vec2 ! i)
               / (sqrt (\<Sum>i<length vec1. vec1 ! i * vec1 ! i)
                  * sqrt (\<Sum>i<length vec2. vec2 ! i * vec2 ! i)))"
  by (simp only: cosine_similarity_value dot_product_common_prefix
      sum_list_map_nth [of "\<lambda>a. a * a"])

theorem cosine_similarity_unequal_lengths_witness:
  "cosine_similarity [3, 4] [1] = Inr (3 / 5) \<and>
   cosine_similarity [1] [3, 4] = Inr (3 / 5) \<and>
   cosine_similarity [] [3, 4] = Inr 0"
proof -
  have "sqrt 25 = sqrt (5\<^sup>2)" by simp
  then have s: "sqrt 25 = 5" by (simp only: real_sqrt_abs)
  have l: "{..<2::nat} = {0, 1}" "{..<1::nat} = {0}" by auto
  show ?thesis
    using cosine_similarity_unequal_lengths [of "[3, 4]" "[1]"]
      cosine_similarity_unequal_lengths [of "[1]" "[3, 4]"]
      cosine_similarity_unequal_lengths [of "[]" "[3, 4]"]
    by (simp add: s l)
qed

section \<open>Facts of exact arithmetic\<close>

text \<open>
  What follows holds for the model, whose arithmetic is exact, and not for the code.
  Over the reals the similarity of a vector with a nonzero component to itself is \<open>1\<close>,
  and every similarity lies between \<open>-1\<close> and \<open>1\<close> (Cauchy-Schwarz, also for vectors of
  unequal length). In binary64 the code returns \<open>0.0\<close> for \<open>[1e-200]\<close> against itself
  (the square underflows and the guard for a zero magnitude fires), \<open>nan\<close> for \<open>[1e200]\<close>
  against itself (the squares overflow), and a rounded quotient such as
  \<open>0.9999999999999998\<close> or \<open>1.0000000000000002\<close> for most other vectors.
\<close>

lemma sum_list_squares_eq_0_iff:
  "sum_list (map (\<lambda>a. a * a) (v::real list)) = 0 \<longleftrightarrow> (\<forall>a\<in>set v. a = 0)"
proof (induction v)
  case Nil
  then show ?case by simp
next
  case (Cons x v)
  have "x * x + sum_list (map (\<lambda>a. a * a) v) = 0 \<longleftrightarrow>
      x * x = 0 \<and> sum_list (map (\<lambda>a. a * a) v) = 0"
    by (rule add_nonneg_eq_0_iff) (simp_all add: sum_list_squares_nonneg)
  with Cons show ?case by simp
qed

lemma cosine_self_exact:
  assumes "\<exists>a\<in>set v. a \<noteq> 0"
  shows "cosine_similarity v v = Inr 1"
proof -
  have nz: "sum_list (map (\<lambda>a. a * a) v) \<noteq> 0"
    using assms by (simp add: sum_list_squares_eq_0_iff)
  have "sum_list (map (\<lambda>(a, b). a * b) (zip v v)) = sum_list (map (\<lambda>a. a * a) v)"
    by (induction v) auto
  with nz show ?thesis
    using sum_list_squares_nonneg [of v] by (simp add: cosine_similarity_value)
qed

lemma cauchy_schwarz_lists:
  "(sum_list (map (\<lambda>(a, b). a * b) (zip xs ys)))\<^sup>2 \<le>
     sum_list (map (\<lambda>a. a * a) xs) * sum_list (map (\<lambda>b. b * b) (ys :: real list))"
proof (induction xs ys rule: list_induct2')
  case 1
  then show ?case by simp
next
  case (2 x xs)
  then show ?case by simp
next
  case (3 y ys)
  then show ?case by simp
next
  case (4 x xs y ys)
  let ?D = "sum_list (map (\<lambda>(a, b). a * b) (zip xs ys))"
  let ?A = "sum_list (map (\<lambda>a. a * a) xs)"
  let ?B = "sum_list (map (\<lambda>b. b * b) ys)"
  have A: "0 \<le> ?A" and B: "0 \<le> ?B" by (rule sum_list_squares_nonneg)+
  have IH: "?D\<^sup>2 \<le> ?A * ?B" by (rule 4)
  have "(2 * x * y * ?D)\<^sup>2 \<le> (x * x * ?B + y * y * ?A)\<^sup>2"
  proof -
    have "(2 * x * y * ?D)\<^sup>2 = 4 * (x * x) * (y * y) * ?D\<^sup>2" by (simp add: power2_eq_square)
    also have "\<dots> \<le> 4 * (x * x) * (y * y) * (?A * ?B)"
      using IH by (intro mult_left_mono) auto
    also have "\<dots> \<le> (x * x * ?B + y * y * ?A)\<^sup>2"
    proof -
      have "0 \<le> (x * x * ?B - y * y * ?A)\<^sup>2" by simp
      then show ?thesis by (simp add: power2_eq_square algebra_simps)
    qed
    finally show ?thesis .
  qed
  moreover have "0 \<le> x * x * ?B + y * y * ?A" using A B by simp
  ultimately have "2 * x * y * ?D \<le> x * x * ?B + y * y * ?A"
    by (meson abs_le_square_iff abs_le_D1 abs_of_nonneg order_trans abs_ge_self power2_le_imp_le)
  with IH show ?case
    by (simp add: power2_eq_square algebra_simps)
qed

lemma quotient_bound:
  fixes d m :: real
  assumes "0 < m" and "\<bar>d\<bar> \<le> m"
  shows "\<bar>d / m\<bar> \<le> 1"
proof -
  have "\<bar>d / m\<bar> = \<bar>d\<bar> / m"
    using assms(1) by simp
  also have "\<dots> \<le> 1"
    using assms by (simp add: divide_le_eq)
  finally show ?thesis .
qed

lemma cosine_bounds_exact:
  assumes "cosine_similarity xs ys = Inr r"
  shows "- 1 \<le> r \<and> r \<le> 1"
proof -
  let ?D = "sum_list (map (\<lambda>(a, b). a * b) (zip xs ys))"
  let ?A = "sum_list (map (\<lambda>a. a * a) xs)"
  let ?B = "sum_list (map (\<lambda>b. b * b) ys)"
  show ?thesis
  proof (cases "sqrt ?A = 0 \<or> sqrt ?B = 0")
    case True
    with assms show ?thesis by (simp add: cosine_similarity_value)
  next
    case False
    have A: "0 \<le> ?A" and B: "0 \<le> ?B" by (rule sum_list_squares_nonneg)+
    with False have pos: "0 < sqrt ?A * sqrt ?B" by (simp add: less_le)
    have "\<bar>?D\<bar> = sqrt (?D\<^sup>2)" by simp
    also have "\<dots> \<le> sqrt (?A * ?B)"
      using cauchy_schwarz_lists [of xs ys] by (simp only: real_sqrt_le_iff)
    also have "\<dots> = sqrt ?A * sqrt ?B" by (rule real_sqrt_mult)
    finally have "\<bar>?D\<bar> \<le> sqrt ?A * sqrt ?B" .
    then have "\<bar>?D / (sqrt ?A * sqrt ?B)\<bar> \<le> 1"
      by (rule quotient_bound [OF pos])
    moreover from False assms have "r = ?D / (sqrt ?A * sqrt ?B)"
      by (simp add: cosine_similarity_value)
    ultimately have "\<bar>r\<bar> \<le> 1" by (simp only:)
    then show ?thesis by linarith
  qed
qed

text \<open>
  The ranking. Where every similarity is a number, as in the model, the result of
  \<open>search_similar_words\<close> after a successful fetch is sorted by similarity, descending,
  and ties keep the insertion order of the \<open>embeddings\<close> dictionary: for every value
  \<open>k\<close>, the words returned with similarity \<open>k\<close> are an initial part of the stored words
  whose similarity to the query is \<open>k\<close>, in dictionary order. On the code a similarity
  can be \<open>nan\<close> (a component of magnitude \<open>1e300\<close> overflows the sums), every
  comparison with \<open>nan\<close> is false, and \<open>list.sort\<close> then leaves entries out of order; the
  lemma says nothing about such a run.
\<close>

lemma search_ranking_exact:
  assumes "p (provider_calls w) q = Inr t"
  shows "\<exists>rs. fst (search_similar_words p q limit w) = Inr rs \<and>
           (\<forall>i. Suc i < length rs \<longrightarrow> similarity (rs ! Suc i) \<le> similarity (rs ! i)) \<and>
           (\<forall>k. prefix (map word (filter (\<lambda>r. similarity r = k) rs))
                  (map fst (filter (\<lambda>(wd, e). cosine_similarity t e = Inr k)
                     (items (embeddings (word_store w))))))"
proof (cases "items (embeddings (word_store w)) \<noteq> [] \<and>
    (\<exists>sims. similarities_loop (words (word_store w)) t (items (embeddings (word_store w))) [] = Inr sims)")
  case False
  then have "fst (search_similar_words p q limit w) = Inr []"
    using assms by (auto simp: search_cases split: sum.splits)
  then show ?thesis by simp
next
  case True
  then obtain sims where ne: "items (embeddings (word_store w)) \<noteq> []"
    and sims: "similarities_loop (words (word_store w)) t (items (embeddings (word_store w))) [] = Inr sims"
    by blast
  let ?sorted = "list_sort_reverse similarity sims"
  obtain n where n: "slice_to ?sorted limit = take n ?sorted"
    using slice_to_take by blast
  have res: "fst (search_similar_words p q limit w) = Inr (take n ?sorted)"
    using ne assms sims n by (simp add: search_cases)
  have "sorted (rev (map similarity ?sorted))"
    by (rule sorted_list_sort_reverse)
  then have "sorted (rev (map similarity (take n ?sorted)))"
    by (metis sorted_wrt_take sorted_wrt_rev take_map)
  then have desc: "\<forall>i. Suc i < length (take n ?sorted) \<longrightarrow>
      similarity (take n ?sorted ! Suc i) \<le> similarity (take n ?sorted ! i)"
    by (simp add: sorted_rev_iff_nth_Suc)
  from similarities_loop_result [OF sims]
  have order: "\<And>k. map word (filter (\<lambda>r. similarity r = k) sims) =
      map fst (filter (\<lambda>(wd, e). cosine_similarity t e = Inr k) (items (embeddings (word_store w))))"
    by auto
  have "prefix (map word (filter (\<lambda>r. similarity r = k) (take n ?sorted)))
      (map fst (filter (\<lambda>(wd, e). cosine_similarity t e = Inr k) (items (embeddings (word_store w)))))" for k
  proof -
    have "prefix (filter (\<lambda>r. similarity r = k) (take n ?sorted)) (filter (\<lambda>r. similarity r = k) ?sorted)"
      by (rule prefix_filter_take)
    then have "prefix (filter (\<lambda>r. similarity r = k) (take n ?sorted)) (filter (\<lambda>r. similarity r = k) sims)"
      by (simp add: filter_list_sort_reverse)
    then have "prefix (map word (filter (\<lambda>r. similarity r = k) (take n ?sorted)))
        (map word (filter (\<lambda>r. similarity r = k) sims))"
      by (rule map_mono_prefix)
    then show ?thesis by (simp add: order)
  qed
  with res desc show ?thesis by blast
qed

end
